theory Spec2Isabelle
  imports Complex_Main "HOL-Library.Sublist"
begin

section \<open>C strings\<close>

text \<open>
  A \<^typ>\<open>string\<close> stands for the bytes of a \<open>char\<close> buffer. The C string held by a buffer is
  what comes before the first NUL byte; a buffer without a NUL byte is taken to be followed
  directly by its terminator.
\<close>

definition NUL :: char where
  "NUL = CHR 0x00"

definition cstr :: "string \<Rightarrow> string" where
  "cstr buf = takeWhile (\<lambda>c. c \<noteq> NUL) buf"

definition strlen :: "string \<Rightarrow> nat" where
  "strlen s = length (cstr s)"

text \<open>
  \<open>s[i]\<close> for \<open>i \<le> strlen s\<close>: a byte of the string, or the terminator at \<open>i = strlen s\<close>.
  The sketch never reads further.
\<close>

definition char_at :: "string \<Rightarrow> nat \<Rightarrow> char" where
  "char_at s i = (if i < strlen s then s ! i else NUL)"

text \<open>\<open>strcmp(a, b) == 0\<close>\<close>

definition streq :: "string \<Rightarrow> string \<Rightarrow> bool" where
  "streq a b = (cstr a = cstr b)"

section \<open>InStr\<close>

text \<open>
  The \<open>while (i < len)\<close> loop of \<open>InStr\<close>, with the locals \<open>f\<close> and \<open>i\<close> as arguments. The
  counters are C \<open>int\<close>s; they stay between 0 and \<open>len\<close>, the length of a string held in
  the device's memory, so they are natural numbers here.
\<close>

function InStr_loop :: "string \<Rightarrow> string \<Rightarrow> nat \<Rightarrow> nat \<Rightarrow> nat \<Rightarrow> bool" where
  "InStr_loop str1 str2 len f i =
     (if i < len then
        (if char_at str1 i = char_at str2 f then
           (if strlen str2 = f + 1 then True
            else InStr_loop str1 str2 len (f + 1) (i + 1))
         else InStr_loop str1 str2 len 0 (i + 1))
      else False)"
  by pat_completeness auto
termination
  by (relation "measure (\<lambda>(str1, str2, len, f, i). len - i)") auto

declare InStr_loop.simps [simp del]

definition InStr :: "string \<Rightarrow> string \<Rightarrow> bool" where
  "InStr str1 str2 =
     (let len = strlen str1 in
      if strlen str2 > len then False
      else InStr_loop str1 str2 len 0 0)"

section \<open>Undefined behaviour\<close>

text \<open>
  What C leaves undefined is a value of the model: a store outside an array
  (\<open>Overrun\<close>), the use of a pointer that was never set (\<open>Uninit\<close>).
\<close>

datatype fault = Overrun | Uninit

section \<open>Sensors\<close>

text \<open>
  A \<open>float\<close> as the sketch uses it: it is read from a sensor, tested with \<open>isnan\<close>, replaced
  by the constant 0 and printed, never computed with.
\<close>

datatype cfloat = NaN | Num real

definition isnan :: "cfloat \<Rightarrow> bool" where
  "isnan x = (x = NaN)"

text \<open>
  The DHT object, from the sensor library: \<open>readTemperature(S)\<close> is in Fahrenheit when
  \<open>S\<close> is true and in Celsius otherwise (the default), \<open>readHumidity()\<close> in percent. Either
  is NaN when the read fails. The readings are fixed for the time of one request.
\<close>

record DHT =
  readTemperature :: "bool \<Rightarrow> cfloat"
  readHumidity :: cfloat

definition NUM_SENSORS :: int where
  "NUM_SENSORS = 6"

definition MAX_PARMS :: nat where
  "MAX_PARMS = 5"

text \<open>\<open>sensors[k]\<close>\<close>

definition sensor_at :: "DHT list \<Rightarrow> nat \<Rightarrow> fault + DHT" where
  "sensor_at sensors k = (if k < length sensors then Inr (sensors ! k) else Inl Overrun)"

section \<open>GetParms\<close>

text \<open>
  \<open>strtok\<close> of the C library, on the strings' contents. \<open>save\<close> is its saved position, the
  rest of the string being split, \<open>None\<close> for the null pointer; the result is the token
  (\<open>None\<close> for NULL) and the new saved position. The delimiter that ends a token is
  overwritten with NUL, so the token is a string of its own, and what follows the
  delimiter is the saved rest.
\<close>

definition strtok :: "string option \<Rightarrow> string \<Rightarrow> string option \<Rightarrow> string option \<times> string option" where
  "strtok str delim save =
     (case (case str of Some s \<Rightarrow> Some s | None \<Rightarrow> save) of
        None \<Rightarrow> (None, None)
      | Some s \<Rightarrow>
          (let s' = dropWhile (\<lambda>c. c \<in> set delim) s in
           if s' = [] then (None, None)
           else (Some (takeWhile (\<lambda>c. c \<notin> set delim) s'),
                 (case dropWhile (\<lambda>c. c \<notin> set delim) s' of
                    [] \<Rightarrow> None
                  | d # rest \<Rightarrow> Some rest))))"

text \<open>
  The array \<open>char *parms[]\<close>: a slot is \<open>None\<close> until a pointer is stored in it. The result
  of \<open>GetParms\<close> is the returned count, the array, and the lines printed on the serial port.
\<close>

type_synonym parms = "string option list"

definition strtok_measure :: "string option \<times> string option \<Rightarrow> nat" where
  "strtok_measure p =
     (case fst p of None \<Rightarrow> 0
      | Some w \<Rightarrow> Suc (case snd p of None \<Rightarrow> 0 | Some r \<Rightarrow> Suc (length r)))"

function GetParms_loop ::
  "string option \<Rightarrow> string option \<Rightarrow> nat \<Rightarrow> parms \<Rightarrow> nat \<Rightarrow> fault + (nat \<times> parms \<times> string list)" where
  "GetParms_loop None save i parms num_parms = Inr (i, parms, [])"
| "GetParms_loop (Some w) save i parms num_parms =
     (if i < num_parms then
        (if i < length parms then
           GetParms_loop (fst (strtok None ''/'' save)) (snd (strtok None ''/'' save))
             (i + 1) (parms[i := Some w]) num_parms
         else Inl Overrun)
      else Inr (i, parms, [''ERROR: parsed more than MAX_PARMS parms, bailing out'']))"
  by pat_completeness auto
termination
proof (relation "measure (\<lambda>(word, save, i, parms, num_parms). strtok_measure (word, save))")
  show "wf (measure (\<lambda>(word, save, i, parms, num_parms). strtok_measure (word, save)))"
    by simp
next
  fix w :: string and save :: "string option" and i :: nat and parms :: parms and num_parms :: nat
  have "strtok_measure (strtok None ''/'' save) < strtok_measure (Some w, save)"
  proof (cases save)
    case None
    then show ?thesis by (simp add: strtok_def strtok_measure_def)
  next
    case (Some s)
    define s' where "s' = dropWhile (\<lambda>c. c \<in> set ''/'') s"
    define r where "r = dropWhile (\<lambda>c. c \<notin> set ''/'') s'"
    have "length r \<le> length s'"
      unfolding r_def by (rule length_dropWhile_le)
    also have "\<dots> \<le> length s"
      unfolding s'_def by (rule length_dropWhile_le)
    finally have le: "length r \<le> length s" .
    have tok: "strtok None ''/'' (Some s) =
        (if s' = [] then (None, None)
         else (Some (takeWhile (\<lambda>c. c \<notin> set ''/'') s'),
               (case r of [] \<Rightarrow> None | d # rest \<Rightarrow> Some rest)))"
      unfolding strtok_def s'_def r_def Let_def by simp
    show ?thesis
    proof (cases "s' = []")
      case True
      with tok Some show ?thesis by (simp add: strtok_measure_def)
    next
      case False
      show ?thesis
      proof (cases r)
        case Nil
        with tok Some False show ?thesis by (simp add: strtok_measure_def)
      next
        case (Cons d rest)
        with tok Some False le show ?thesis by (simp add: strtok_measure_def)
      qed
    qed
  qed
  then show "((fst (strtok None ''/'' save), snd (strtok None ''/'' save), i + 1,
               parms[i := Some w], num_parms),
              (Some w, save, i, parms, num_parms))
             \<in> measure (\<lambda>(word, save, i, parms, num_parms). strtok_measure (word, save))"
    by simp
qed

definition GetParms :: "string \<Rightarrow> parms \<Rightarrow> nat \<Rightarrow> fault + (nat \<times> parms \<times> string list)" where
  "GetParms req parms num_parms =
     (let (word, save) = strtok (Some (cstr req)) '' '' None;
          (word, save) = strtok None '' '' save;
          url = word;
          (word, save) = strtok url ''/'' save
      in GetParms_loop word save 0 parms num_parms)"

section \<open>HandleParms\<close>

text \<open>\<open>parms[i]\<close>, used as a string: a slot that was never written holds no string.\<close>

definition parm :: "parms \<Rightarrow> nat \<Rightarrow> fault + string" where
  "parm parms i =
     (if i < length parms then (case parms ! i of None \<Rightarrow> Inl Uninit | Some w \<Rightarrow> Inr w)
      else Inl Overrun)"

text \<open>
  The locals of \<open>HandleParms\<close> when it returns: \<open>ret\<close> is the value returned, \<open>err\<close> the
  error code (0 none, 1 sensor, 2 option, 3 operation), \<open>serial\<close> the lines printed
  on the serial port.
\<close>

record hp_locals =
  ret :: cfloat
  err :: int
  serial :: "string list"

text \<open>The first \<open>if\<close>: the unit flag \<open>f\<close>, the error code and the serial lines after it.\<close>

definition hp_option :: "parms \<Rightarrow> int \<Rightarrow> fault + (bool \<times> int \<times> string list)" where
  "hp_option parms num_parms =
     (if num_parms > 2 then
        (case parm parms 2 of
           Inl e \<Rightarrow> Inl e
         | Inr opt \<Rightarrow>
             if streq opt ''c'' then Inr (False, 0, [])
             else if streq opt ''f'' then Inr (True, 0, [])
             else Inr (True, 2, [''Invalid option requested, bailing out'']))
      else Inr (True, 0, []))"

text \<open>
  The chain of \<open>strcmp\<close> on the sensor name: the value given to \<open>sensor\<close>, or \<open>None\<close> in the
  last \<open>else\<close>, where \<open>sensor\<close> stays unset and \<open>err\<close> becomes 1.
\<close>

definition hp_sensor :: "string \<Rightarrow> nat option" where
  "hp_sensor s =
     (if streq s ''sensor0'' then Some 0
      else if streq s ''sensor1'' then Some 1
      else if streq s ''sensor2'' then Some 2
      else if streq s ''sensor3'' then Some 3
      else if streq s ''sensor4'' then Some 4
      else if streq s ''sensor5'' then Some 5
      else None)"

text \<open>
  The block under \<open>if (err == 0)\<close>: the value read from \<open>sensors[sensor]\<close>, or \<open>None\<close> in
  the last \<open>else\<close>, where \<open>err\<close> becomes 3.
\<close>

definition hp_operation :: "string \<Rightarrow> DHT list \<Rightarrow> nat \<Rightarrow> bool \<Rightarrow> fault + cfloat option" where
  "hp_operation op sensors sensor f =
     (if streq op ''temp'' then
        (case sensor_at sensors sensor of
           Inl e \<Rightarrow> Inl e
         | Inr dht \<Rightarrow> Inr (Some (readTemperature dht f)))
      else if streq op ''humidity'' then
        (case sensor_at sensors sensor of
           Inl e \<Rightarrow> Inl e
         | Inr dht \<Rightarrow> Inr (Some (readHumidity dht)))
      else Inr None)"

text \<open>
  \<open>HandleParms\<close> with its locals at the \<open>return\<close>. \<open>num_sensors\<close> is a parameter that the
  body never uses. The pointers \<open>s\<close>, \<open>op\<close> and \<open>opt\<close> are followed where \<open>strcmp\<close> is
  called on them, in the order of the source.
\<close>

definition HandleParms_locals :: "parms \<Rightarrow> int \<Rightarrow> DHT list \<Rightarrow> int \<Rightarrow> fault + hp_locals" where
  "HandleParms_locals parms num_parms sensors num_sensors =
     (case hp_option parms num_parms of
        Inl e \<Rightarrow> Inl e
      | Inr (f, err1, log1) \<Rightarrow>
          (case parm parms 0 of
             Inl e \<Rightarrow> Inl e
           | Inr s \<Rightarrow>
               (case hp_sensor s of
                  None \<Rightarrow>
                    Inr \<lparr>ret = Num 0, err = 1,
                         serial = log1 @ [''Invalid sensor requested, bailing out'']\<rparr>
                | Some sensor \<Rightarrow>
                    if err1 = 0 then
                      (case parm parms 1 of
                         Inl e \<Rightarrow> Inl e
                       | Inr op \<Rightarrow>
                           (case hp_operation op sensors sensor f of
                              Inl e \<Rightarrow> Inl e
                            | Inr (Some v) \<Rightarrow> Inr \<lparr>ret = v, err = 0, serial = log1\<rparr>
                            | Inr None \<Rightarrow>
                                Inr \<lparr>ret = Num 0, err = 3,
                                     serial = log1 @
                                       [''Invalid operation requested, bailing out'']\<rparr>))
                    else Inr \<lparr>ret = Num 0, err = err1, serial = log1\<rparr>)))"

text \<open>What the caller of \<open>HandleParms\<close> gets: the \<open>float\<close> it returns.\<close>

definition HandleParms :: "parms \<Rightarrow> int \<Rightarrow> DHT list \<Rightarrow> int \<Rightarrow> fault + cfloat" where
  "HandleParms parms num_parms sensors num_sensors =
     map_sum id ret (HandleParms_locals parms num_parms sensors num_sensors)"

section \<open>Formatting\<close>

text \<open>
  A \<open>String\<close> built by concatenation is the list of its pieces: text, an \<open>int\<close>, or a
  \<open>float\<close> (that the String class prints with two decimals).
\<close>

datatype piece = Txt string | IntP int | FltP cfloat

definition format_data_long :: "DHT \<Rightarrow> string \<Rightarrow> piece list" where
  "format_data_long dht label =
     (let f = readTemperature dht True;
          f = (if isnan f then Num 0 else f);
          c = readTemperature dht False;
          c = (if isnan c then Num 0 else c);
          h = readHumidity dht;
          h = (if isnan h then Num 0 else h)
      in [Txt label, Txt '': '', FltP f, Txt ''&deg;F, '', FltP c, Txt ''&deg;C, '', FltP h,
          Txt ''% RH''])"

definition format_data_short :: "DHT \<Rightarrow> int \<Rightarrow> piece list" where
  "format_data_short dht sensor =
     (let f = readTemperature dht True;
          f = (if isnan f then Num 0 else f);
          c = readTemperature dht False;
          c = (if isnan c then Num 0 else c);
          h = readHumidity dht;
          h = (if isnan h then Num 0 else h)
      in [IntP sensor, Txt '','', FltP f, Txt '','', FltP c, Txt '','', FltP h])"

section \<open>The reply of loop\<close>

text \<open>
  \<open>sprintf(label, "DHT%d", j)\<close> for a digit \<open>j\<close>: the bytes it stores, from offset 0 on, are
  the text and its terminator. Into a buffer of \<open>sz\<close> bytes they fit when there are
  at most \<open>sz\<close> of them.
\<close>

definition sprintf_DHT :: "nat \<Rightarrow> string" where
  "sprintf_DHT j = ''DHT'' @ [char_of (48 + j)] @ [NUL]"

definition sprintf_label :: "nat \<Rightarrow> nat \<Rightarrow> fault + string" where
  "sprintf_label sz j =
     (if length (sprintf_DHT j) \<le> sz then Inr (cstr (sprintf_DHT j)) else Inl Overrun)"

text \<open>\<open>char label[] = ""\<close> has room for the terminator of the empty string only.\<close>

definition label_size :: nat where
  "label_size = length ([] :: string) + 1"

text \<open>The branch that the chain of \<open>InStr\<close> tests in \<open>loop\<close> takes.\<close>

datatype route = Root | Sensor | Report | NoRoute

definition route_of :: "string \<Rightarrow> route" where
  "route_of HTTP_req =
     (if InStr HTTP_req ''GET / '' then Root
      else if InStr HTTP_req ''GET /s'' then Sensor
      else if InStr HTTP_req ''GET /report '' then Report
      else NoRoute)"

text \<open>What is sent to the client between \<open><body>\<close> and \<open></body>\<close>, one list of pieces per call.\<close>

fun root_lines :: "DHT list \<Rightarrow> nat list \<Rightarrow> fault + piece list list" where
  "root_lines sensors [] = Inr []"
| "root_lines sensors (j # js) =
     (case sensor_at sensors j of
        Inl e \<Rightarrow> Inl e
      | Inr dht \<Rightarrow>
          (case root_lines sensors js of
             Inl e \<Rightarrow> Inl e
           | Inr rest \<Rightarrow> Inr (format_data_short dht (int j) # rest)))"

definition sensor_lines :: "string \<Rightarrow> DHT list \<Rightarrow> fault + piece list list" where
  "sensor_lines HTTP_req sensors =
     (case GetParms HTTP_req (replicate MAX_PARMS None) MAX_PARMS of
        Inl e \<Rightarrow> Inl e
      | Inr (num_parms, parms, out) \<Rightarrow>
          (case HandleParms parms (int num_parms) sensors NUM_SENSORS of
             Inl e \<Rightarrow> Inl e
           | Inr response \<Rightarrow> Inr [[FltP response]]))"

fun report_lines :: "DHT list \<Rightarrow> nat list \<Rightarrow> fault + piece list list" where
  "report_lines sensors [] = Inr []"
| "report_lines sensors (j # js) =
     (case sprintf_label label_size j of
        Inl e \<Rightarrow> Inl e
      | Inr label \<Rightarrow>
          (case sensor_at sensors j of
             Inl e \<Rightarrow> Inl e
           | Inr dht \<Rightarrow>
               (case report_lines sensors js of
                  Inl e \<Rightarrow> Inl e
                | Inr rest \<Rightarrow>
                    Inr ([Txt ''<p>''] # format_data_long dht label # [Txt ''</p>''] # rest))))"

definition body :: "string \<Rightarrow> DHT list \<Rightarrow> fault + piece list list" where
  "body HTTP_req sensors =
     (case route_of HTTP_req of
        Root \<Rightarrow> root_lines sensors [0..<6]
      | Sensor \<Rightarrow> sensor_lines HTTP_req sensors
      | Report \<Rightarrow>
          (case report_lines sensors [0..<6] of
             Inl e \<Rightarrow> Inl e
           | Inr ls \<Rightarrow> Inr ([Txt ''<h1>Full Sensor Report</h1>''] # ls))
      | NoRoute \<Rightarrow> Inr [])"

section \<open>Inputs of dispatch\<close>

text \<open>
  A segment sequence of \<open>num_parms\<close> segments, as \<open>GetParms\<close> leaves it: the first
  \<open>num_parms\<close> slots of the array hold strings.
\<close>

definition segments_set :: "parms \<Rightarrow> int \<Rightarrow> bool" where
  "segments_set parms num_parms =
     (nat num_parms \<le> length parms \<and> list_all (\<lambda>p. p \<noteq> None) (take (nat num_parms) parms))"

text \<open>
  The three errors of dispatch, in the words of the specification: segment 0 is not
  one of the literals \<open>sensor0\<close> to \<open>sensor5\<close>; there are more than two segments and
  segment 2 is neither \<open>c\<close> nor \<open>f\<close>; segment 1 is neither \<open>temp\<close> nor \<open>humidity\<close>.
\<close>

definition spec_invalid_sensor :: "string \<Rightarrow> bool" where
  "spec_invalid_sensor s =
     (cstr s \<notin> set [''sensor0'', ''sensor1'', ''sensor2'', ''sensor3'', ''sensor4'', ''sensor5''])"

definition spec_invalid_option :: "int \<Rightarrow> string \<Rightarrow> bool" where
  "spec_invalid_option num_parms opt = (2 < num_parms \<and> cstr opt \<noteq> ''c'' \<and> cstr opt \<noteq> ''f'')"

definition spec_invalid_operation :: "string \<Rightarrow> bool" where
  "spec_invalid_operation op = (cstr op \<noteq> ''temp'' \<and> cstr op \<noteq> ''humidity'')"

text \<open>Six sensors whose every read fails.\<close>

definition sensors_nan :: "DHT list" where
  "sensors_nan = replicate 6 \<lparr>readTemperature = (\<lambda>S. NaN), readHumidity = NaN\<rparr>"

text \<open>
  Six sensors with fixed readings: sensor 0 reads 72.0 in Fahrenheit and 22.2 in Celsius,
  sensor 3 reads 45.5 percent humidity.
\<close>

definition sensors_example :: "DHT list" where
  "sensors_example =
     [\<lparr>readTemperature = (\<lambda>S. if S then Num 72.0 else Num 22.2), readHumidity = Num 40\<rparr>,
      \<lparr>readTemperature = (\<lambda>S. if S then Num 68 else Num 20), readHumidity = Num 50\<rparr>,
      \<lparr>readTemperature = (\<lambda>S. NaN), readHumidity = NaN\<rparr>,
      \<lparr>readTemperature = (\<lambda>S. if S then Num 32 else Num 0), readHumidity = Num 45.5\<rparr>,
      \<lparr>readTemperature = (\<lambda>S. NaN), readHumidity = NaN\<rparr>,
      \<lparr>readTemperature = (\<lambda>S. NaN), readHumidity = NaN\<rparr>]"

section \<open>The segments of a request line, as the specification describes them\<close>

text \<open>
  These definitions follow the words of the specification, not the code. The tokens of a
  string are its maximal runs of bytes other than the delimiter, read from left to right,
  the empty ones left out. The path is the second token of the request line between
  spaces, and the segments are the tokens of the path between slashes. \<open>GetParms\<close>,
  which works with \<open>strtok\<close>, is compared with them below.
\<close>

fun spec_tokens_aux :: "char \<Rightarrow> string \<Rightarrow> string \<Rightarrow> string list" where
  "spec_tokens_aux d acc [] = (if acc = [] then [] else [acc])"
| "spec_tokens_aux d acc (c # cs) =
     (if c = d then (if acc = [] then spec_tokens_aux d [] cs else acc # spec_tokens_aux d [] cs)
      else spec_tokens_aux d (acc @ [c]) cs)"

definition spec_tokens :: "char \<Rightarrow> string \<Rightarrow> string list" where
  "spec_tokens d s = spec_tokens_aux d [] s"

definition spec_url_path :: "string \<Rightarrow> string" where
  "spec_url_path req = (case spec_tokens (CHR '' '') (cstr req) of m # p # rest \<Rightarrow> p | _ \<Rightarrow> [])"

definition spec_segments :: "string \<Rightarrow> string list" where
  "spec_segments req = spec_tokens (CHR ''/'') (spec_url_path req)"

text \<open>The tokens still to come from the saved position of \<open>strtok\<close>.\<close>

definition spec_rest_tokens :: "char \<Rightarrow> string option \<Rightarrow> string list" where
  "spec_rest_tokens d save = (case save of None \<Rightarrow> [] | Some r \<Rightarrow> spec_tokens d r)"

text \<open>The line that \<open>GetParms\<close> prints when it stops at \<open>num_parms\<close> segments.\<close>

definition overflow_msg :: "string list" where
  "overflow_msg = [''ERROR: parsed more than MAX_PARMS parms, bailing out'']"

section \<open>Facts about C strings\<close>

lemma cstr_no_NUL: "NUL \<notin> set (cstr s)"
  unfolding cstr_def by (auto dest: set_takeWhileD)

lemma cstr_id: "NUL \<notin> set s \<Longrightarrow> cstr s = s"
  unfolding cstr_def by (induction s) auto

lemma cstr_append: "NUL \<notin> set s \<Longrightarrow> cstr (s @ t) = s @ cstr t"
  unfolding cstr_def by (induction s) auto

lemma cstr_prefix: "prefix (cstr s) s"
  unfolding cstr_def by (rule takeWhile_is_prefix)

lemma char_at_cstr: "i < strlen s \<Longrightarrow> char_at s i = cstr s ! i"
  unfolding char_at_def strlen_def cstr_def by (simp add: takeWhile_nth)

lemma char_at_not_NUL: "i < strlen s \<Longrightarrow> char_at s i \<noteq> NUL"
  using cstr_no_NUL [of s] by (auto simp: char_at_cstr strlen_def dest: nth_mem)

lemma char_at_end: "char_at s (strlen s) = NUL"
  by (simp add: char_at_def)

section \<open>Facts about InStr\<close>

lemma InStr_loop_True:
  "i < len \<Longrightarrow> char_at str1 i = char_at str2 f \<Longrightarrow> strlen str2 = f + 1 \<Longrightarrow>
   InStr_loop str1 str2 len f i"
  by (subst InStr_loop.simps) simp

lemma InStr_loop_match:
  "i < len \<Longrightarrow> char_at str1 i = char_at str2 f \<Longrightarrow> strlen str2 \<noteq> f + 1 \<Longrightarrow>
   InStr_loop str1 str2 len f i = InStr_loop str1 str2 len (f + 1) (i + 1)"
  by (subst InStr_loop.simps) simp

lemma InStr_loop_mismatch:
  "i < len \<Longrightarrow> char_at str1 i \<noteq> char_at str2 f \<Longrightarrow>
   InStr_loop str1 str2 len f i = InStr_loop str1 str2 len 0 (i + 1)"
  by (subst InStr_loop.simps) simp

lemma InStr_loop_done: "\<not> i < len \<Longrightarrow> \<not> InStr_loop str1 str2 len f i"
  by (subst InStr_loop.simps) simp

text \<open>
  With an empty needle the loop compares each byte of the haystack with the needle's
  terminator, and no byte before the haystack's own terminator is NUL.
\<close>

lemma InStr_loop_empty_needle:
  "strlen n = 0 \<Longrightarrow> len = strlen s \<Longrightarrow> \<not> InStr_loop s n len 0 i"
proof (induction "len - i" arbitrary: i)
  case 0
  then show ?case by (simp add: InStr_loop_done)
next
  case (Suc d)
  from Suc.prems Suc.hyps(2) have lt: "i < strlen s" by simp
  have ne: "char_at s i \<noteq> char_at n 0"
    using char_at_not_NUL [OF lt] char_at_end [of n] Suc.prems(1) by simp
  have "\<not> InStr_loop s n len 0 (i + 1)"
    using Suc.hyps(1) [of "i + 1"] Suc.hyps(2) Suc.prems by simp
  with ne lt Suc.prems(2) show ?case by (simp add: InStr_loop_mismatch)
qed

lemma InStr_empty_needle: "cstr n = [] \<Longrightarrow> \<not> InStr s n"
  using InStr_loop_empty_needle [of n "strlen s" s 0]
  by (simp add: InStr_def strlen_def)

lemma InStr_longer: "strlen s < strlen n \<Longrightarrow> \<not> InStr s n"
  by (simp add: InStr_def)

text \<open>
  When the loop answers true, the last \<open>f + 1\<close> bytes it has read are the needle: \<open>f\<close>
  counts the bytes before position \<open>i\<close> that agree with the start of the needle.
\<close>

lemma InStr_loop_sound:
  assumes "InStr_loop s n len f i" and "len = strlen s" and "f \<le> i"
    and "\<forall>k<f. cstr s ! (i - f + k) = cstr n ! k" and "f < strlen n"
  shows "sublist (cstr n) (cstr s)"
  using assms
proof (induction s n len f i rule: InStr_loop.induct)
  case (1 s n len f i)
  from "1.prems"(1) have lt: "i < len"
    using InStr_loop_done by blast
  show ?case
  proof (cases "char_at s i = char_at n f")
    case eq: True
    have ci: "cstr s ! i = cstr n ! f"
      using eq lt "1.prems"(2,5) by (simp add: char_at_cstr)
    have inv: "\<forall>k<f + 1. cstr s ! (i + 1 - (f + 1) + k) = cstr n ! k"
    proof (intro allI impI)
      fix k assume "k < f + 1"
      then consider "k < f" | "k = f" by linarith
      then show "cstr s ! (i + 1 - (f + 1) + k) = cstr n ! k"
        using "1.prems"(3,4) ci by cases auto
    qed
    show ?thesis
    proof (cases "strlen n = f + 1")
      case last: True
      let ?cs = "cstr s"
      have "cstr n = take (f + 1) (drop (i - f) ?cs)"
      proof (rule nth_equalityI)
        show "length (cstr n) = length (take (f + 1) (drop (i - f) ?cs))"
          using last lt "1.prems"(2,3) by (simp add: strlen_def)
      next
        fix k assume "k < length (cstr n)"
        then have k: "k < f + 1" using last by (simp add: strlen_def)
        then show "cstr n ! k = take (f + 1) (drop (i - f) ?cs) ! k"
          using inv lt "1.prems"(2,3) by (simp add: strlen_def)
      qed
      then have "?cs = take (i - f) ?cs @ cstr n @ drop (f + 1) (drop (i - f) ?cs)"
        by (metis append_take_drop_id)
      then show ?thesis unfolding sublist_def by blast
    next
      case more: False
      have "InStr_loop s n len (f + 1) (i + 1)"
        using "1.prems"(1) lt eq more by (simp add: InStr_loop_match)
      then show ?thesis
        using "1.IH"(1) [OF lt eq more] "1.prems"(2,3,5) inv more by simp
    qed
  next
    case ne: False
    have "InStr_loop s n len 0 (i + 1)"
      using "1.prems"(1) lt ne by (simp add: InStr_loop_mismatch)
    then show ?thesis
      using "1.IH"(2) [OF lt ne] "1.prems"(2,5) by simp
  qed
qed

lemma InStr_sound: "InStr s n \<Longrightarrow> sublist (cstr n) (cstr s)"
proof (cases "cstr n = []")
  case True
  then show ?thesis by simp
next
  case False
  assume "InStr s n"
  then have "InStr_loop s n (strlen s) 0 0"
    by (auto simp: InStr_def Let_def split: if_splits)
  then show ?thesis
    using InStr_loop_sound [of s n "strlen s" 0 0] False by (simp add: strlen_def)
qed

text \<open>A needle at the very start of the haystack is found: nothing is reset on the way.\<close>

lemma InStr_loop_prefix:
  "len = strlen s \<Longrightarrow> prefix (cstr n) (cstr s) \<Longrightarrow> f < strlen n \<Longrightarrow> InStr_loop s n len f f"
proof (induction "strlen n - f" arbitrary: f)
  case 0
  then show ?case by simp
next
  case (Suc d)
  from Suc.prems(2) have le: "strlen n \<le> strlen s"
    by (simp add: strlen_def prefix_length_le)
  with Suc.prems have lt: "f < len" by simp
  have "cstr s ! f = cstr n ! f"
    using Suc.prems(2,3) by (auto simp: prefix_def strlen_def nth_append)
  then have eq: "char_at s f = char_at n f"
    using lt Suc.prems by (simp add: char_at_cstr)
  show ?case
  proof (cases "strlen n = f + 1")
    case True
    with lt eq show ?thesis by (simp add: InStr_loop_True)
  next
    case False
    then have "InStr_loop s n len (f + 1) (f + 1)"
      using Suc.hyps(1) [of "f + 1"] Suc.hyps(2) Suc.prems by simp
    with lt eq False show ?thesis by (simp add: InStr_loop_match)
  qed
qed

lemma InStr_prefix: "cstr n \<noteq> [] \<Longrightarrow> prefix (cstr n) (cstr s) \<Longrightarrow> InStr s n"
  using InStr_loop_prefix [of "strlen s" s n 0]
  by (auto simp: InStr_def Let_def strlen_def dest: prefix_length_le)

section \<open>The line matcher\<close>

text \<open>
  C1. The claim: \<open>InStr(haystack, needle)\<close> is true exactly when the needle occurs as a
  contiguous substring of the haystack. The code resets its match counter on a mismatch
  without looking at the mismatching byte again, so it misses an occurrence that starts
  inside a failed partial match: in the request \<open>GGET / HTTP/1.1\<close> the needle \<open>GET / \<close>
  of the root route occurs at offset 1 and \<open>InStr\<close> answers false.
\<close>

theorem InStr_misses_occurrence:
  "sublist ''GET / '' ''GGET / HTTP/1.1'' \<and> \<not> InStr ''GGET / HTTP/1.1'' ''GET / ''"
  by code_simp

text \<open>
  C7, as the claim states it: \<open>InStr\<close> is true for the empty needle, whatever the
  haystack. The test \<open>strlen(str2) == f\<close> is made only after a byte has matched, and no
  byte of the haystack equals the terminator of the needle: for the empty needle the
  answer is false.
\<close>

theorem InStr_empty_needle_counterexample: "\<not> InStr ''GET / HTTP/1.1'' ''''"
  by code_simp

text \<open>
  C7, amended. \<open>InStr\<close> is false for the empty needle, whatever the haystack, and false
  for a needle longer than the haystack. (The sketch calls it with three needles, none
  of them empty.)
\<close>

theorem InStr_empty_or_longer_needle:
  "\<not> InStr str1 '''' \<and> (strlen str1 < strlen str2 \<longrightarrow> \<not> InStr str1 str2)"
proof
  show "\<not> InStr str1 ''''"
    by (rule InStr_empty_needle) (simp add: cstr_def)
  show "strlen str1 < strlen str2 \<longrightarrow> \<not> InStr str1 str2"
    by (simp add: InStr_longer)
qed

text \<open>C7, amended, on the haystack \<open>GET\<close> and the needle \<open>GET / \<close>.\<close>

theorem InStr_empty_or_longer_needle_witness:
  "strlen ''GET'' < strlen ''GET / '' \<and> \<not> InStr ''GET'' '''' \<and> \<not> InStr ''GET'' ''GET / ''"
  using InStr_empty_or_longer_needle [of "''GET''" "''GET / ''"]
  by (simp add: strlen_def cstr_def NUL_def)

section \<open>The routes of loop\<close>

lemma not_InStr: "\<not> sublist (cstr n) s \<Longrightarrow> \<not> InStr s n"
proof
  assume no: "\<not> sublist (cstr n) s" and "InStr s n"
  then have "sublist (cstr n) (cstr s)" by (simp add: InStr_sound)
  moreover have "sublist (cstr s) s"
    using cstr_prefix by (rule prefix_imp_sublist)
  ultimately have "sublist (cstr n) s" by (rule sublist_order.order.trans)
  with no show False by contradiction
qed

lemma InStr_literal_prefix: "lit \<noteq> [] \<Longrightarrow> NUL \<notin> set lit \<Longrightarrow> InStr (lit @ tail) lit"
  by (rule InStr_prefix) (simp_all add: cstr_id cstr_append)

lemma sublist_count_le: "sublist xs ys \<Longrightarrow> count_list xs a \<le> count_list ys a"
  by (auto simp: sublist_def)

lemma InStr_root: "InStr (''GET / '' @ tail) ''GET / ''"
  by (rule InStr_literal_prefix) (simp_all add: NUL_def)

lemma InStr_sensor: "InStr (''GET /s'' @ tail) ''GET /s''"
  by (rule InStr_literal_prefix) (simp_all add: NUL_def)

lemma InStr_report: "InStr (''GET /report '' @ tail) ''GET /report ''"
  by (rule InStr_literal_prefix) (simp_all add: NUL_def)

lemma report_not_root:
  assumes "CHR '' '' \<notin> set version"
  shows "\<not> InStr (''GET /report '' @ version) ''GET / ''"
proof (rule not_InStr)
  have c: "cstr ''GET / '' = ''GET / ''" by (simp add: cstr_def NUL_def)
  have "\<not> sublist ''GET / '' version"
    using assms set_mono_sublist [of "''GET / ''" version] by auto
  then show "\<not> sublist (cstr ''GET / '') (''GET /report '' @ version)"
    unfolding c by (simp add: sublist_Cons_right)
qed

lemma report_not_sensor:
  assumes "CHR '' '' \<notin> set version"
  shows "\<not> InStr (''GET /report '' @ version) ''GET /s''"
proof (rule not_InStr)
  have c: "cstr ''GET /s'' = ''GET /s''" by (simp add: cstr_def NUL_def)
  have "\<not> sublist ''GET /s'' version"
    using assms set_mono_sublist [of "''GET /s''" version] by auto
  then show "\<not> sublist (cstr ''GET /s'') (''GET /report '' @ version)"
    unfolding c by (simp add: sublist_Cons_right)
qed

text \<open>
  The needle of the root route has two spaces, and what follows \<open>GET /s\<close> in a request line
  has one.
\<close>

lemma sensor_not_root:
  assumes "CHR '' '' \<notin> set rest" and "CHR '' '' \<notin> set version"
  shows "\<not> InStr (''GET /s'' @ rest @ '' '' @ version) ''GET / ''"
proof (rule not_InStr)
  have c: "cstr ''GET / '' = ''GET / ''" by (simp add: cstr_def NUL_def)
  have "count_list (rest @ '' '' @ version) (CHR '' '') = 1"
    using assms by (simp add: count_list_0_iff)
  then have "\<not> sublist ''GET / '' (rest @ '' '' @ version)"
    using sublist_count_le [of "''GET / ''" "rest @ '' '' @ version" "CHR '' ''"] by auto
  then show "\<not> sublist (cstr ''GET / '') (''GET /s'' @ rest @ '' '' @ version)"
    unfolding c by (simp add: sublist_Cons_right)
qed

text \<open>
  C4, as the claim states it: every path that begins with \<open>/report\<close> is classified as
  report. The needle of the report route ends with a space, so the path has to be
  \<open>/report\<close> and nothing more: the path \<open>/reports\<close> begins with \<open>/report\<close> and takes no
  route at all.
\<close>

theorem report_prefix_not_report: "route_of ''GET /reports HTTP/1.1'' = NoRoute"
  by code_simp

text \<open>
  C4, amended. A request line is \<open>GET\<close>, a path and a version, with one space between
  them and none inside. When the path is \<open>/\<close> the route is root (whatever follows it);
  when the path begins with \<open>/s\<close> the route is sensor; when the path is \<open>/report\<close> the
  route is report. The tests are made in the order root, sensor, report, and the first
  that succeeds decides.
\<close>

theorem route_of_request_line:
  assumes "CHR '' '' \<notin> set rest" and "CHR '' '' \<notin> set version"
  shows "route_of (''GET / '' @ tail) = Root
       \<and> route_of (''GET /s'' @ rest @ '' '' @ version) = Sensor
       \<and> route_of (''GET /report '' @ version) = Report
       \<and> (route_of req = Root \<longleftrightarrow> InStr req ''GET / '')
       \<and> (route_of req = Sensor \<longleftrightarrow> \<not> InStr req ''GET / '' \<and> InStr req ''GET /s'')
       \<and> (route_of req = Report \<longleftrightarrow>
            \<not> InStr req ''GET / '' \<and> \<not> InStr req ''GET /s'' \<and> InStr req ''GET /report '')"
proof (intro conjI)
  show "route_of (''GET / '' @ tail) = Root"
    using InStr_root [of tail] by (simp add: route_of_def)
  show "route_of (''GET /s'' @ rest @ '' '' @ version) = Sensor"
    using sensor_not_root [OF assms] InStr_sensor [of "rest @ '' '' @ version"]
    by (simp add: route_of_def)
  show "route_of (''GET /report '' @ version) = Report"
    using report_not_root [OF assms(2)] report_not_sensor [OF assms(2)] InStr_report [of version]
    by (simp add: route_of_def)
  show "route_of req = Root \<longleftrightarrow> InStr req ''GET / ''"
    by (simp add: route_of_def)
  show "route_of req = Sensor \<longleftrightarrow> \<not> InStr req ''GET / '' \<and> InStr req ''GET /s''"
    by (simp add: route_of_def)
  show "route_of req = Report \<longleftrightarrow>
      \<not> InStr req ''GET / '' \<and> \<not> InStr req ''GET /s'' \<and> InStr req ''GET /report ''"
    by (simp add: route_of_def)
qed

text \<open>C4, amended, on the request lines of the three routes.\<close>

theorem route_of_request_line_witness:
  "CHR '' '' \<notin> set ''ensor2/temp/c'' \<and> CHR '' '' \<notin> set ''HTTP/1.1''
   \<and> route_of ''GET / HTTP/1.1'' = Root
   \<and> route_of ''GET /sensor2/temp/c HTTP/1.1'' = Sensor
   \<and> route_of ''GET /report HTTP/1.1'' = Report"
  using route_of_request_line [of "''ensor2/temp/c''" "''HTTP/1.1''" "''HTTP/1.1''" "''''"]
  by simp

section \<open>Failed reads\<close>

text \<open>Both formatters replace a failed read by 0, field by field.\<close>

lemma format_data_short_no_NaN: "FltP NaN \<notin> set (format_data_short dht j)"
  by (simp add: format_data_short_def isnan_def Let_def)

lemma format_data_long_no_NaN: "FltP NaN \<notin> set (format_data_long dht label)"
  by (simp add: format_data_long_def isnan_def Let_def)

text \<open>
  C2. The claim: on every response path a read that fails (NaN) is replaced by 0 before
  it is formatted, and the body of a valid \<open>/sensorN/temp\<close> or \<open>/sensorN/humidity\<close>
  request is never NaN. \<open>format_data_short\<close> and \<open>format_data_long\<close> do test \<open>isnan\<close>;
  \<open>HandleParms\<close> does not, and \<open>loop\<close> prints what it returns: when the read of sensor 0
  fails, the body of \<open>GET /sensor0/temp\<close> is NaN.
\<close>

theorem body_sensor_NaN:
  "body ''GET /sensor0/temp HTTP/1.1'' sensors_nan = Inr [[FltP NaN]]"
  by code_simp

section \<open>Dispatch\<close>

lemma streq_lit: "NUL \<notin> set lit \<Longrightarrow> streq s lit = (cstr s = lit)"
  by (simp add: streq_def cstr_id)

lemma parm_set: "segments_set parms n \<Longrightarrow> i < nat n \<Longrightarrow> \<exists>w. parm parms i = Inr w"
  by (auto simp: segments_set_def parm_def list_all_length split: option.splits)

lemma hp_sensor_range: "hp_sensor s = Some k \<Longrightarrow> k < 6"
  by (auto simp: hp_sensor_def split: if_splits)

lemma hp_sensor_None_iff: "hp_sensor s = None \<longleftrightarrow> spec_invalid_sensor s"
  by (simp add: hp_sensor_def spec_invalid_sensor_def streq_lit NUL_def)

lemma hp_option_value:
  assumes "2 < num_parms \<longrightarrow> parm parms 2 = Inr opt"
  shows "\<exists>f e lg. hp_option parms num_parms = Inr (f, e, lg)
           \<and> (spec_invalid_option num_parms opt \<longrightarrow> e = 2 \<and> lg \<noteq> [])
           \<and> (\<not> spec_invalid_option num_parms opt \<longrightarrow> e = 0)"
  using assms
  by (auto simp: hp_option_def spec_invalid_option_def streq_lit NUL_def)

lemma hp_operation_value:
  assumes "k < length sensors"
  shows "\<exists>v. hp_operation op sensors k f = Inr v \<and> (v = None \<longleftrightarrow> spec_invalid_operation op)"
  using assms
  by (auto simp: hp_operation_def sensor_at_def spec_invalid_operation_def streq_lit NUL_def)

text \<open>
  C3, as the claim states it: the caller can tell from the result of dispatch which
  error occurred. \<open>HandleParms\<close> returns a \<open>float\<close> and nothing else: an unknown sensor
  (error 1) and an unknown operation (error 3) give the caller the same result.
\<close>

theorem HandleParms_error_not_returned:
  "HandleParms [Some ''sensor9'', Some ''temp'', None, None, None] 2 sensors_example NUM_SENSORS
     = HandleParms [Some ''sensor1'', Some ''speed'', None, None, None] 2 sensors_example NUM_SENSORS
   \<and> map_sum id err
         (HandleParms_locals [Some ''sensor9'', Some ''temp'', None, None, None] 2
            sensors_example NUM_SENSORS) = Inr 1
   \<and> map_sum id err
         (HandleParms_locals [Some ''sensor1'', Some ''speed'', None, None, None] 2
            sensors_example NUM_SENSORS) = Inr 3"
  by code_simp

text \<open>
  C3, amended. For every segment sequence with count at least 2, dispatch returns. It
  ends with the sensor error (code 1) when segment 0 is not a sensor name, with the
  option error (code 2) when the sensor name is valid and the option is not, with the
  operation error (code 3) when both are valid and the operation is not, and with no
  error otherwise. On each of the errors the value it returns is exactly 0. The value is
  all that the caller gets: the error code stays in a local variable (a line on the
  serial port is the only trace of it), so every error gives the caller the same result.
\<close>

theorem HandleParms_error_value_zero:
  assumes "2 \<le> num_parms" and "segments_set parms num_parms" and "length sensors = 6"
    and "parms ! 0 = Some s" and "parms ! 1 = Some op"
    and "2 < num_parms \<longrightarrow> parms ! 2 = Some opt"
  shows "\<exists>l. HandleParms_locals parms num_parms sensors num_sensors = Inr l
           \<and> HandleParms parms num_parms sensors num_sensors = Inr (ret l)
           \<and> (spec_invalid_sensor s \<longrightarrow> err l = 1)
           \<and> (\<not> spec_invalid_sensor s \<and> spec_invalid_option num_parms opt \<longrightarrow> err l = 2)
           \<and> (\<not> spec_invalid_sensor s \<and> \<not> spec_invalid_option num_parms opt
                \<and> spec_invalid_operation op \<longrightarrow> err l = 3)
           \<and> (err l \<noteq> 0 \<longleftrightarrow>
                spec_invalid_sensor s \<or> spec_invalid_option num_parms opt
                \<or> spec_invalid_operation op)
           \<and> (err l \<noteq> 0 \<longrightarrow>
                ret l = Num 0 \<and> serial l \<noteq> []
                \<and> HandleParms parms num_parms sensors num_sensors = Inr (Num 0))"
proof -
  from assms(1) have "2 \<le> nat num_parms" by linarith
  with assms(2) have len: "2 \<le> length parms"
    by (simp add: segments_set_def)
  have s: "parm parms 0 = Inr s" and op: "parm parms 1 = Inr op"
    using len assms(4,5) by (auto simp: parm_def)
  have "2 < num_parms \<longrightarrow> parm parms 2 = Inr opt"
  proof
    assume "2 < num_parms"
    then have "2 < nat num_parms" by linarith
    with assms(2) have "2 < length parms" by (simp add: segments_set_def)
    with \<open>2 < num_parms\<close> assms(6) show "parm parms 2 = Inr opt" by (simp add: parm_def)
  qed
  then obtain f e lg where o: "hp_option parms num_parms = Inr (f, e, lg)"
    and e2: "spec_invalid_option num_parms opt \<longrightarrow> e = 2 \<and> lg \<noteq> []"
    and e0: "\<not> spec_invalid_option num_parms opt \<longrightarrow> e = 0"
    using hp_option_value [of num_parms parms opt] by blast
  show ?thesis
  proof (cases "hp_sensor s")
    case None
    then have bad: "spec_invalid_sensor s" by (simp add: hp_sensor_None_iff)
    with o s None show ?thesis by (simp add: HandleParms_locals_def HandleParms_def)
  next
    case (Some k)
    then have good: "\<not> spec_invalid_sensor s"
      using hp_sensor_None_iff [of s] by simp
    from Some have "k < length sensors" using hp_sensor_range assms(3) by simp
    then obtain v where v: "hp_operation op sensors k f = Inr v"
      and vn: "v = None \<longleftrightarrow> spec_invalid_operation op"
      using hp_operation_value by blast
    show ?thesis
    proof (cases "spec_invalid_option num_parms opt")
      case True
      with e2 have "e = 2" and "lg \<noteq> []" by simp_all
      with o s Some good True show ?thesis
        by (simp add: HandleParms_locals_def HandleParms_def)
    next
      case False
      with e0 have "e = 0" by simp
      with o s op Some v vn good False show ?thesis
        by (cases v) (simp_all add: HandleParms_locals_def HandleParms_def)
    qed
  qed
qed

text \<open>C3, amended, on the segments \<open>sensor9\<close>, \<open>temp\<close>: the sensor error, and the value 0.\<close>

theorem HandleParms_error_value_zero_witness:
  "(2::int) \<le> 2 \<and> segments_set [Some ''sensor9'', Some ''temp'', None, None, None] 2
   \<and> length sensors_example = 6 \<and> spec_invalid_sensor ''sensor9''
   \<and> map_sum id err
        (HandleParms_locals [Some ''sensor9'', Some ''temp'', None, None, None] 2
           sensors_example NUM_SENSORS) = Inr 1
   \<and> HandleParms [Some ''sensor9'', Some ''temp'', None, None, None] 2
        sensors_example NUM_SENSORS = Inr (Num 0)"
proof -
  have bad: "spec_invalid_sensor ''sensor9''"
    by (simp add: spec_invalid_sensor_def cstr_def NUL_def)
  have seg: "segments_set [Some ''sensor9'', Some ''temp'', None, None, None] 2"
    by (simp add: segments_set_def)
  have len: "length sensors_example = 6"
    by (simp add: sensors_example_def)
  from HandleParms_error_value_zero
    [of 2 "[Some ''sensor9'', Some ''temp'', None, None, None]" sensors_example
      "''sensor9''" "''temp''" "''''" NUM_SENSORS] seg len bad
  show ?thesis by auto
qed

text \<open>
  C5. With sensors of which sensor 0 reads 72.0 in Fahrenheit and 22.2 in Celsius and
  sensor 3 reads 45.5 percent humidity: \<open>sensor0/temp\<close> gives 72.0 (Fahrenheit when no
  option is given), \<open>sensor0/temp/c\<close> gives 22.2, \<open>sensor3/humidity\<close> gives 45.5;
  \<open>sensor9/temp\<close> gives 0 with the sensor error (code 1), \<open>sensor1/speed\<close> gives 0 with
  the operation error (code 3), \<open>sensor1/temp/k\<close> gives 0 with the option error (code 2).
\<close>

theorem HandleParms_scenarios:
  assumes "length sensors = 6"
    and "readTemperature (sensors ! 0) True = Num 72.0"
    and "readTemperature (sensors ! 0) False = Num 22.2"
    and "readHumidity (sensors ! 3) = Num 45.5"
  shows "HandleParms_locals [Some ''sensor0'', Some ''temp'', None, None, None] 2 sensors NUM_SENSORS
           = Inr \<lparr>ret = Num 72.0, err = 0, serial = []\<rparr>
       \<and> HandleParms_locals [Some ''sensor0'', Some ''temp'', Some ''c'', None, None] 3 sensors NUM_SENSORS
           = Inr \<lparr>ret = Num 22.2, err = 0, serial = []\<rparr>
       \<and> HandleParms_locals [Some ''sensor3'', Some ''humidity'', None, None, None] 2 sensors NUM_SENSORS
           = Inr \<lparr>ret = Num 45.5, err = 0, serial = []\<rparr>
       \<and> HandleParms_locals [Some ''sensor9'', Some ''temp'', None, None, None] 2 sensors NUM_SENSORS
           = Inr \<lparr>ret = Num 0, err = 1, serial = [''Invalid sensor requested, bailing out'']\<rparr>
       \<and> HandleParms_locals [Some ''sensor1'', Some ''speed'', None, None, None] 2 sensors NUM_SENSORS
           = Inr \<lparr>ret = Num 0, err = 3, serial = [''Invalid operation requested, bailing out'']\<rparr>
       \<and> HandleParms_locals [Some ''sensor1'', Some ''temp'', Some ''k'', None, None] 3 sensors NUM_SENSORS
           = Inr \<lparr>ret = Num 0, err = 2, serial = [''Invalid option requested, bailing out'']\<rparr>"
  using assms
  by (intro conjI)
    (simp_all add: HandleParms_locals_def hp_option_def hp_sensor_def hp_operation_def
      parm_def sensor_at_def streq_def cstr_def NUL_def)

text \<open>C5, on the sensors of the example, with the values that the caller gets.\<close>

theorem HandleParms_scenarios_witness:
  "length sensors_example = 6
   \<and> readTemperature (sensors_example ! 0) True = Num 72.0
   \<and> readTemperature (sensors_example ! 0) False = Num 22.2
   \<and> readHumidity (sensors_example ! 3) = Num 45.5
   \<and> HandleParms [Some ''sensor0'', Some ''temp'', None, None, None] 2 sensors_example NUM_SENSORS
       = Inr (Num 72.0)
   \<and> HandleParms [Some ''sensor0'', Some ''temp'', Some ''c'', None, None] 3 sensors_example NUM_SENSORS
       = Inr (Num 22.2)
   \<and> HandleParms [Some ''sensor3'', Some ''humidity'', None, None, None] 2 sensors_example NUM_SENSORS
       = Inr (Num 45.5)
   \<and> HandleParms [Some ''sensor9'', Some ''temp'', None, None, None] 2 sensors_example NUM_SENSORS
       = Inr (Num 0)
   \<and> HandleParms [Some ''sensor1'', Some ''speed'', None, None, None] 2 sensors_example NUM_SENSORS
       = Inr (Num 0)
   \<and> HandleParms [Some ''sensor1'', Some ''temp'', Some ''k'', None, None] 3 sensors_example NUM_SENSORS
       = Inr (Num 0)"
  using HandleParms_scenarios [of sensors_example]
  by (simp add: sensors_example_def HandleParms_def)

text \<open>
  C6, as the claim states it: with an invalid option and an invalid sensor the error of
  dispatch is the option error (code 2). The test of the sensor name comes second and
  stores its code without looking at the one already there: the error is the sensor
  error (code 1).
\<close>

theorem both_invalid_not_option_error:
  "HandleParms_locals [Some ''sensor9'', Some ''temp'', Some ''k'', None, None] 3
     sensors_example NUM_SENSORS
   = Inr \<lparr>ret = Num 0, err = 1,
          serial = [''Invalid option requested, bailing out'',
                    ''Invalid sensor requested, bailing out'']\<rparr>
   \<and> map_sum id err
         (HandleParms_locals [Some ''sensor9'', Some ''temp'', Some ''k'', None, None] 3
            sensors_example NUM_SENSORS) \<noteq> Inr 2"
  by code_simp

text \<open>
  C6, amended. When the count is above 2, segment 2 is neither \<open>c\<close> nor \<open>f\<close>, and segment
  0 is none of \<open>sensor0\<close> to \<open>sensor5\<close>, dispatch reports both on the serial port, the
  option first, and the error code it ends with is that of the last test that failed,
  the sensor error (code 1); the value is 0.
\<close>

theorem both_invalid_sensor_error:
  assumes "2 < num_parms" and "2 < length parms"
    and "parms ! 2 = Some opt" and "cstr opt \<noteq> ''c''" and "cstr opt \<noteq> ''f''"
    and "parms ! 0 = Some s"
    and "cstr s \<notin> set [''sensor0'', ''sensor1'', ''sensor2'', ''sensor3'', ''sensor4'', ''sensor5'']"
  shows "HandleParms_locals parms num_parms sensors num_sensors =
           Inr \<lparr>ret = Num 0, err = 1,
                serial = [''Invalid option requested, bailing out'',
                          ''Invalid sensor requested, bailing out'']\<rparr>"
proof -
  have o: "hp_option parms num_parms = Inr (True, 2, [''Invalid option requested, bailing out''])"
    using assms(1-5) by (simp add: hp_option_def parm_def streq_lit NUL_def)
  have s: "hp_sensor s = None"
    using assms(7) by (simp add: hp_sensor_def streq_lit NUL_def)
  have p0: "parm parms 0 = Inr s"
    using assms(2,6) by (auto simp: parm_def)
  show ?thesis
    using o s p0 by (simp add: HandleParms_locals_def)
qed

text \<open>C6, amended, on the segments \<open>sensor9\<close>, \<open>temp\<close>, \<open>k\<close>.\<close>

theorem both_invalid_sensor_error_witness:
  "(2::int) < 3 \<and> cstr ''k'' \<noteq> ''c'' \<and> cstr ''k'' \<noteq> ''f''
   \<and> cstr ''sensor9'' \<notin> set [''sensor0'', ''sensor1'', ''sensor2'', ''sensor3'', ''sensor4'', ''sensor5'']
   \<and> HandleParms_locals [Some ''sensor9'', Some ''temp'', Some ''k'', None, None] 3
         sensors_nan NUM_SENSORS
       = Inr \<lparr>ret = Num 0, err = 1,
              serial = [''Invalid option requested, bailing out'',
                        ''Invalid sensor requested, bailing out'']\<rparr>"
  using both_invalid_sensor_error
    [of 3 "[Some ''sensor9'', Some ''temp'', Some ''k'', None, None]" "''k''" "''sensor9''"
      sensors_nan NUM_SENSORS]
  by (simp add: cstr_def NUL_def)

section \<open>The label of the report\<close>

text \<open>
  C10. The claim: in the report branch, for every sensor index from 0 to 5, the bytes that
  \<open>sprintf\<close> writes for the label (\<open>DHT\<close>, the digit, the terminator) lie inside \<open>label\<close>.
  \<open>label\<close> is declared as \<open>char label[] = ""\<close> and has one byte; \<open>sprintf\<close> writes five, so
  four of them fall behind the array, for each of the six indices.
\<close>

theorem sprintf_label_overrun:
  "label_size = 1 \<and> map (\<lambda>j. length (sprintf_DHT j)) [0..<6] = replicate 6 5
   \<and> map (sprintf_label label_size) [0..<6] = replicate 6 (Inl Overrun)"
  by code_simp

lemma body_report_overrun: "body ''GET /report HTTP/1.1'' sensors = Inl Overrun"
  by code_simp

section \<open>The tokenizer\<close>

text \<open>The tokens of the specification, one token at a time.\<close>

lemma tokens_aux_split:
  "spec_tokens_aux d acc s =
     (if acc @ takeWhile (\<lambda>c. c \<noteq> d) s = [] then [] else [acc @ takeWhile (\<lambda>c. c \<noteq> d) s])
     @ spec_tokens_aux d [] (dropWhile (\<lambda>c. c \<noteq> d) s)"
  by (induction s arbitrary: acc) auto

lemma tokens_skip: "spec_tokens d (dropWhile (\<lambda>c. c = d) s) = spec_tokens d s"
  by (induction s) (auto simp: spec_tokens_def)

lemma tokens_Nil: "spec_tokens d [] = []"
  by (simp add: spec_tokens_def)

lemma tokens_delim: "spec_tokens d (d # s) = spec_tokens d s"
  by (simp add: spec_tokens_def)

lemma tokens_unfold:
  "spec_tokens d s =
     (let s' = dropWhile (\<lambda>c. c = d) s in
      if s' = [] then []
      else takeWhile (\<lambda>c. c \<noteq> d) s' #
           (case dropWhile (\<lambda>c. c \<noteq> d) s' of [] \<Rightarrow> [] | x # rest \<Rightarrow> spec_tokens d rest))"
proof -
  define s' where "s' = dropWhile (\<lambda>c. c = d) s"
  have eq: "spec_tokens d s = spec_tokens d s'"
    by (simp add: s'_def tokens_skip)
  show ?thesis
  proof (cases "s' = []")
    case True
    with eq show ?thesis by (simp add: s'_def [symmetric] tokens_Nil)
  next
    case False
    then have hd: "hd s' \<noteq> d"
      unfolding s'_def using hd_dropWhile [of "\<lambda>c. c = d" s] by simp
    with False have tw: "takeWhile (\<lambda>c. c \<noteq> d) s' \<noteq> []"
      by (cases s') auto
    have "spec_tokens d s' = takeWhile (\<lambda>c. c \<noteq> d) s' # spec_tokens d (dropWhile (\<lambda>c. c \<noteq> d) s')"
      using tokens_aux_split [of d "[]" s'] tw by (simp add: spec_tokens_def)
    moreover have "spec_tokens d (dropWhile (\<lambda>c. c \<noteq> d) s') =
        (case dropWhile (\<lambda>c. c \<noteq> d) s' of [] \<Rightarrow> [] | x # rest \<Rightarrow> spec_tokens d rest)"
    proof (cases "dropWhile (\<lambda>c. c \<noteq> d) s'")
      case Nil
      show ?thesis unfolding Nil by (simp add: tokens_Nil)
    next
      case (Cons x rest)
      then have "x = d"
        using hd_dropWhile [of "\<lambda>c. c \<noteq> d" s'] by (metis list.sel(1) list.distinct(1))
      with Cons show ?thesis by (simp add: tokens_delim)
    qed
    ultimately show ?thesis
      using eq False by (simp add: s'_def [symmetric] Let_def)
  qed
qed

lemma strtok_None: "fst (strtok str delim save) = None \<Longrightarrow> strtok str delim save = (None, None)"
  by (auto simp: strtok_def Let_def split: option.splits if_splits)

lemma strtok_Some_tokens:
  "(case fst (strtok (Some s) [d] sv) of None \<Rightarrow> []
    | Some w \<Rightarrow> w # spec_rest_tokens d (snd (strtok (Some s) [d] sv))) = spec_tokens d s"
proof -
  define s' where "s' = dropWhile (\<lambda>c. c = d) s"
  define r where "r = dropWhile (\<lambda>c. c \<noteq> d) s'"
  have tok: "strtok (Some s) [d] sv =
      (if s' = [] then (None, None)
       else (Some (takeWhile (\<lambda>c. c \<noteq> d) s'),
             (case r of [] \<Rightarrow> None | x # rest \<Rightarrow> Some rest)))"
    unfolding strtok_def s'_def r_def Let_def by simp
  have spec: "spec_tokens d s =
      (if s' = [] then []
       else takeWhile (\<lambda>c. c \<noteq> d) s' # (case r of [] \<Rightarrow> [] | x # rest \<Rightarrow> spec_tokens d rest))"
    unfolding s'_def r_def using tokens_unfold [of d s] by (simp add: Let_def)
  show ?thesis
  proof (cases "s' = []")
    case True
    with tok spec show ?thesis by simp
  next
    case False
    with tok spec show ?thesis
      by (cases r) (simp_all add: spec_rest_tokens_def)
  qed
qed

lemma strtok_tokens:
  "(case fst (strtok str [d] save) of None \<Rightarrow> []
    | Some w \<Rightarrow> w # spec_rest_tokens d (snd (strtok str [d] save)))
   = spec_rest_tokens d (case str of Some s \<Rightarrow> Some s | None \<Rightarrow> save)"
proof (cases str)
  case (Some s)
  show ?thesis
    unfolding Some using strtok_Some_tokens [where s = s and d = d and sv = save]
    by (simp add: spec_rest_tokens_def)
next
  case None
  show ?thesis
  proof (cases save)
    case no: None
    show ?thesis unfolding None no by (simp add: strtok_def spec_rest_tokens_def)
  next
    case (Some r)
    have same: "strtok None [d] (Some r) = strtok (Some r) [d] (Some r)"
      by (simp add: strtok_def)
    show ?thesis
      unfolding None Some same
      using strtok_Some_tokens [where s = r and d = d and sv = "Some r"]
      by (simp add: spec_rest_tokens_def)
  qed
qed


lemma GetParms_loop_tokens:
  assumes "i \<le> num_parms" and "num_parms \<le> length parms"
    and "ws = (case word of None \<Rightarrow> [] | Some w \<Rightarrow> w # spec_rest_tokens (CHR ''/'') save)"
  shows "GetParms_loop word save i parms num_parms =
           Inr (min num_parms (i + length ws),
                take i parms @ map Some (take (num_parms - i) ws)
                  @ drop (min num_parms (i + length ws)) parms,
                if num_parms < i + length ws then overflow_msg else [])"
  using assms
proof (induction word save i parms num_parms arbitrary: ws rule: GetParms_loop.induct)
  case (1 save i parms num_parms)
  then show ?case by (simp add: min_absorb2)
next
  case (2 w save i parms num_parms)
  let ?st = "strtok None ''/'' save"
  define ws' where "ws' = (case fst ?st of None \<Rightarrow> []
      | Some w' \<Rightarrow> w' # spec_rest_tokens (CHR ''/'') (snd ?st))"
  have ws': "ws' = spec_rest_tokens (CHR ''/'') save"
    unfolding ws'_def using strtok_tokens [where str = None and d = "CHR ''/''" and save = save]
    by simp
  have ws: "ws = w # ws'"
    using "2.prems"(3) ws' by simp
  show ?case
  proof (cases "i < num_parms")
    case True
    then have il: "i < length parms" using "2.prems"(2) by simp
    have step: "GetParms_loop (Some w) save i parms num_parms =
        GetParms_loop (fst ?st) (snd ?st) (i + 1) (parms[i := Some w]) num_parms"
      using True il by simp
    have IH: "GetParms_loop (fst ?st) (snd ?st) (i + 1) (parms[i := Some w]) num_parms =
        Inr (min num_parms (i + 1 + length ws'),
             take (i + 1) (parms[i := Some w]) @ map Some (take (num_parms - (i + 1)) ws')
               @ drop (min num_parms (i + 1 + length ws')) (parms[i := Some w]),
             if num_parms < i + 1 + length ws' then overflow_msg else [])"
      using "2.IH" [OF True il, of ws'] True "2.prems"(2) ws'_def by simp
    have t: "take (i + 1) (parms[i := Some w]) = take i parms @ [Some w]"
      using il by (simp add: take_Suc_conv_app_nth)
    have d: "drop (min num_parms (i + 1 + length ws')) (parms[i := Some w]) =
        drop (min num_parms (i + 1 + length ws')) parms"
      using True by (simp add: drop_update_cancel)
    have k: "take (num_parms - i) (w # ws') = w # take (num_parms - (i + 1)) ws'"
    proof -
      from True have "num_parms - i = Suc (num_parms - (i + 1))" by simp
      then show ?thesis by (simp only: take_Suc_Cons)
    qed
    show ?thesis
      unfolding step IH t d ws k by simp
  next
    case False
    then have "i = num_parms" using "2.prems"(1) by simp
    then show ?thesis
      using ws by (simp add: overflow_msg_def)
  qed
qed

lemma GetParms_segments:
  assumes "num_parms \<le> length parms"
  shows "GetParms req parms num_parms =
           Inr (min num_parms (length (spec_segments req)),
                map Some (take num_parms (spec_segments req))
                  @ drop (min num_parms (length (spec_segments req))) parms,
                if num_parms < length (spec_segments req) then overflow_msg else [])"
proof -
  let ?t1 = "strtok (Some (cstr req)) '' '' None"
  let ?t2 = "strtok None '' '' (snd ?t1)"
  let ?t3 = "strtok (fst ?t2) ''/'' (snd ?t2)"
  have G: "GetParms req parms num_parms = GetParms_loop (fst ?t3) (snd ?t3) 0 parms num_parms"
    by (simp add: GetParms_def Let_def split_beta)
  have sp: "spec_tokens (CHR '' '') (cstr req) =
      (case fst ?t1 of None \<Rightarrow> []
       | Some w \<Rightarrow> w # (case fst ?t2 of None \<Rightarrow> []
           | Some p \<Rightarrow> p # spec_rest_tokens (CHR '' '') (snd ?t2)))"
  proof (cases "fst ?t1")
    case None
    then show ?thesis
      using strtok_tokens [where str = "Some (cstr req)" and d = "CHR '' ''" and save = None]
      by (simp add: spec_rest_tokens_def)
  next
    case (Some w)
    then show ?thesis
      using strtok_tokens [where str = "Some (cstr req)" and d = "CHR '' ''" and save = None]
        strtok_tokens [where str = None and d = "CHR '' ''" and save = "snd ?t1"]
      by (simp add: spec_rest_tokens_def)
  qed
  have seg: "(case fst ?t3 of None \<Rightarrow> [] | Some w \<Rightarrow> w # spec_rest_tokens (CHR ''/'') (snd ?t3))
      = spec_segments req"
  proof (cases "fst ?t2")
    case None
    then have t2: "?t2 = (None, None)" by (rule strtok_None)
    have "spec_url_path req = []"
      using sp None by (simp add: spec_url_path_def split: option.splits)
    then show ?thesis
      unfolding t2 by (simp add: spec_segments_def tokens_Nil strtok_def)
  next
    case (Some p)
    then have "fst ?t1 \<noteq> None"
      by (auto simp: strtok_def Let_def split: option.splits if_splits)
    then have "spec_url_path req = p"
      using sp Some by (auto simp: spec_url_path_def)
    then show ?thesis
      unfolding Some
      using strtok_tokens [where str = "Some p" and d = "CHR ''/''" and save = "snd ?t2"]
      by (simp add: spec_segments_def spec_rest_tokens_def)
  qed
  show ?thesis
    unfolding G
    using GetParms_loop_tokens [OF _ assms seg [symmetric], of 0] by simp
qed


lemma tokens_aux_token:
  "d \<notin> set t \<Longrightarrow>
   spec_tokens_aux d acc (t @ d # rest) = (if acc @ t = [] then [] else [acc @ t]) @ spec_tokens_aux d [] rest"
  by (induction t arbitrary: acc) auto

lemma tokens_aux_last:
  "d \<notin> set t \<Longrightarrow> spec_tokens_aux d acc t = (if acc @ t = [] then [] else [acc @ t])"
  by (induction t arbitrary: acc) auto

lemma tokens_token: "t \<noteq> [] \<Longrightarrow> d \<notin> set t \<Longrightarrow> spec_tokens d (t @ d # rest) = t # spec_tokens d rest"
  by (simp add: spec_tokens_def tokens_aux_token)

lemma tokens_last: "t \<noteq> [] \<Longrightarrow> d \<notin> set t \<Longrightarrow> spec_tokens d t = [t]"
  by (simp add: spec_tokens_def tokens_aux_last)

lemma segments_three:
  assumes "segA \<noteq> []" and "segB \<noteq> []" and "segC \<noteq> []"
    and "set segA \<inter> {CHR ''/'', CHR '' '', NUL} = {}"
    and "set segB \<inter> {CHR ''/'', CHR '' '', NUL} = {}"
    and "set segC \<inter> {CHR ''/'', CHR '' '', NUL} = {}"
  shows "spec_segments (''GET /'' @ segA @ ''/'' @ segB @ ''/'' @ segC @ '' HTTP/1.1'')
           = [segA, segB, segC]"
proof -
  define path where "path = CHR ''/'' # segA @ CHR ''/'' # segB @ CHR ''/'' # segC"
  have line: "''GET /'' @ segA @ ''/'' @ segB @ ''/'' @ segC @ '' HTTP/1.1''
      = ''GET'' @ CHR '' '' # path @ CHR '' '' # ''HTTP/1.1''"
    by (simp add: path_def)
  have nonul: "NUL \<notin> set (''GET'' @ CHR '' '' # path @ CHR '' '' # ''HTTP/1.1'')"
    using assms(4-6) by (auto simp: path_def NUL_def)
  have sp: "CHR '' '' \<notin> set path" and ne: "path \<noteq> []"
    using assms(4-6) by (auto simp: path_def)
  have "spec_tokens (CHR '' '') (''GET'' @ CHR '' '' # path @ CHR '' '' # ''HTTP/1.1'')
      = ''GET'' # spec_tokens (CHR '' '') (path @ CHR '' '' # ''HTTP/1.1'')"
    by (rule tokens_token) simp_all
  also have "spec_tokens (CHR '' '') (path @ CHR '' '' # ''HTTP/1.1'')
      = path # spec_tokens (CHR '' '') ''HTTP/1.1''"
    using ne sp by (rule tokens_token)
  finally have url: "spec_url_path (''GET'' @ CHR '' '' # path @ CHR '' '' # ''HTTP/1.1'') = path"
    unfolding spec_url_path_def cstr_id [OF nonul] by simp
  have "spec_tokens (CHR ''/'') path = spec_tokens (CHR ''/'') (segA @ CHR ''/'' # segB @ CHR ''/'' # segC)"
    unfolding path_def by (rule tokens_delim)
  also have "\<dots> = segA # spec_tokens (CHR ''/'') (segB @ CHR ''/'' # segC)"
    using assms(1,4) by (intro tokens_token) auto
  also have "spec_tokens (CHR ''/'') (segB @ CHR ''/'' # segC) = segB # spec_tokens (CHR ''/'') segC"
    using assms(2,5) by (intro tokens_token) auto
  also have "spec_tokens (CHR ''/'') segC = [segC]"
    using assms(3,6) by (intro tokens_last) auto
  finally show ?thesis
    unfolding line spec_segments_def url by simp
qed

lemma segments_root: "spec_segments (''GET / '' @ rest) = []"
proof -
  have c: "cstr (''GET / '' @ rest) = ''GET'' @ CHR '' '' # ''/'' @ CHR '' '' # cstr rest"
    using cstr_append [of "''GET / ''" rest] by (simp add: NUL_def)
  have "spec_tokens (CHR '' '') (''GET'' @ CHR '' '' # ''/'' @ CHR '' '' # cstr rest)
      = ''GET'' # spec_tokens (CHR '' '') (''/'' @ CHR '' '' # cstr rest)"
    by (rule tokens_token) simp_all
  also have "spec_tokens (CHR '' '') (''/'' @ CHR '' '' # cstr rest)
      = ''/'' # spec_tokens (CHR '' '') (cstr rest)"
    by (rule tokens_token) simp_all
  finally have "spec_url_path (''GET / '' @ rest) = ''/''"
    unfolding spec_url_path_def c by simp
  then show ?thesis
    by (simp add: spec_segments_def spec_tokens_def)
qed

text \<open>
  C8. For every request line \<open>GET /segA/segB/segC HTTP/1.1\<close> whose three segments are not
  empty and hold no slash, no space (and, being C strings, no NUL), \<open>GetParms\<close> stores
  \<open>segA\<close>, \<open>segB\<close>, \<open>segC\<close> in this order in the first three slots and returns 3; for a
  request line whose path is \<open>/\<close> alone it stores nothing and returns 0.
\<close>

theorem GetParms_three_segments:
  assumes "length parms = MAX_PARMS"
    and "segA \<noteq> []" and "segB \<noteq> []" and "segC \<noteq> []"
    and "set segA \<inter> {CHR ''/'', CHR '' '', NUL} = {}"
    and "set segB \<inter> {CHR ''/'', CHR '' '', NUL} = {}"
    and "set segC \<inter> {CHR ''/'', CHR '' '', NUL} = {}"
  shows "GetParms (''GET /'' @ segA @ ''/'' @ segB @ ''/'' @ segC @ '' HTTP/1.1'') parms MAX_PARMS
           = Inr (3, [Some segA, Some segB, Some segC] @ drop 3 parms, [])
         \<and> GetParms (''GET / '' @ rest) parms MAX_PARMS = Inr (0, parms, [])"
proof
  have le: "MAX_PARMS \<le> length parms" using assms(1) by simp
  show "GetParms (''GET /'' @ segA @ ''/'' @ segB @ ''/'' @ segC @ '' HTTP/1.1'') parms MAX_PARMS
      = Inr (3, [Some segA, Some segB, Some segC] @ drop 3 parms, [])"
    unfolding GetParms_segments [OF le] segments_three [OF assms(2-7)]
    by (simp add: MAX_PARMS_def eval_nat_numeral)
  show "GetParms (''GET / '' @ rest) parms MAX_PARMS = Inr (0, parms, [])"
    unfolding GetParms_segments [OF le] segments_root by simp
qed

text \<open>C8, on the request lines \<open>GET /sensor2/temp/c HTTP/1.1\<close> and \<open>GET / HTTP/1.1\<close>.\<close>

theorem GetParms_three_segments_witness:
  "GetParms ''GET /sensor2/temp/c HTTP/1.1'' (replicate MAX_PARMS None) MAX_PARMS
     = Inr (3, [Some ''sensor2'', Some ''temp'', Some ''c'', None, None], [])
   \<and> GetParms ''GET / HTTP/1.1'' (replicate MAX_PARMS None) MAX_PARMS
     = Inr (0, replicate MAX_PARMS None, [])"
  using GetParms_three_segments [of "replicate MAX_PARMS None" "''sensor2''" "''temp''" "''c''" "''HTTP/1.1''"]
  by (simp add: MAX_PARMS_def NUL_def eval_nat_numeral)

text \<open>
  C9. For every request line, \<open>GetParms\<close> called with the array of \<open>MAX_PARMS = 5\<close> slots
  returns without a store outside the array: it returns a count \<open>n\<close> of at most 5, the
  first \<open>n\<close> slots hold the first \<open>n\<close> segments of the path and the other slots are as
  they were. When the path has more than 5 segments, the count is 5, the first 5
  segments are stored, and the rest is dropped with a line on the serial port; the
  request goes on.
\<close>

theorem GetParms_bounded:
  assumes "length parms = MAX_PARMS"
  shows "\<exists>n parms' out. GetParms req parms MAX_PARMS = Inr (n, parms', out)
           \<and> n = min MAX_PARMS (length (spec_segments req))
           \<and> length parms' = MAX_PARMS
           \<and> take n parms' = map Some (take MAX_PARMS (spec_segments req))
           \<and> drop n parms' = drop n parms
           \<and> (MAX_PARMS < length (spec_segments req) \<longrightarrow> n = MAX_PARMS \<and> out = overflow_msg)"
proof -
  have le: "MAX_PARMS \<le> length parms" using assms by simp
  show ?thesis
    unfolding GetParms_segments [OF le] using assms by (auto simp: min_def)
qed

text \<open>C9, on a path of six segments.\<close>

theorem GetParms_bounded_witness:
  "length (replicate MAX_PARMS (None :: string option)) = MAX_PARMS
   \<and> MAX_PARMS < length (spec_segments ''GET /a/b/c/d/e/f HTTP/1.1'')
   \<and> GetParms ''GET /a/b/c/d/e/f HTTP/1.1'' (replicate MAX_PARMS None) MAX_PARMS
       = Inr (5, [Some ''a'', Some ''b'', Some ''c'', Some ''d'', Some ''e''], overflow_msg)"
proof -
  have seg: "spec_segments ''GET /a/b/c/d/e/f HTTP/1.1'' = [''a'', ''b'', ''c'', ''d'', ''e'', ''f'']"
    by code_simp
  have len: "length (replicate MAX_PARMS (None :: string option)) = MAX_PARMS"
    by simp
  from GetParms_bounded [OF len, of "''GET /a/b/c/d/e/f HTTP/1.1''"]
  obtain n parms' out where
    g: "GetParms ''GET /a/b/c/d/e/f HTTP/1.1'' (replicate MAX_PARMS None) MAX_PARMS = Inr (n, parms', out)"
    and n: "n = min MAX_PARMS (length (spec_segments ''GET /a/b/c/d/e/f HTTP/1.1''))"
    and l: "length parms' = MAX_PARMS"
    and t: "take n parms' = map Some (take MAX_PARMS (spec_segments ''GET /a/b/c/d/e/f HTTP/1.1''))"
    and o: "MAX_PARMS < length (spec_segments ''GET /a/b/c/d/e/f HTTP/1.1'') \<longrightarrow> n = MAX_PARMS \<and> out = overflow_msg"
    by blast
  from n seg have n5: "n = 5" by (simp add: MAX_PARMS_def)
  from o seg have out: "out = overflow_msg" by (simp add: MAX_PARMS_def)
  from t l n5 seg have "parms' = [Some ''a'', Some ''b'', Some ''c'', Some ''d'', Some ''e'']"
    by (simp add: MAX_PARMS_def)
  with g n5 out seg show ?thesis by (simp add: MAX_PARMS_def)
qed

end
